theory Spec2Isabelle
  imports Main "HOL-Library.Word" "HOL-Library.Sublist"
begin

unbundle bit_operations_syntax

section \<open>Map-layer streaming and object registration in CarlaGameModeBase.cpp\<close>

text \<open>
  The theory embeds the map-layer part of \<^verbatim>\<open>ACarlaGameModeBase\<close>:
  \<^verbatim>\<open>ConvertMapLayerMaskToMapNames\<close>, \<^verbatim>\<open>LoadMapLayer\<close>, \<^verbatim>\<open>UnLoadMapLayer\<close>,
  \<^verbatim>\<open>OnLoadStreamLevel\<close>, \<^verbatim>\<open>OnUnloadStreamLevel\<close>, \<^verbatim>\<open>RegisterEnvironmentObjects\<close> and
  \<^verbatim>\<open>BeginPlay\<close>. Calls into the host engine are recorded, in order, in a trace.
\<close>

subsection \<open>Declarations that live outside the file\<close>

type_synonym int32 = "32 word"

text \<open>
  The file uses four things it does not define. They are parameters of the model.
  \<^item> \<open>MapLayer_All\<close>: the value \<^verbatim>\<open>static_cast<crp::MapLayerType>(crp::MapLayer::All)\<close>
    as stored in the \<^verbatim>\<open>int32 AllLayersMask\<close> (enum of \<^verbatim>\<open>carla/rpc/MapLayer.h\<close>).
  \<^item> \<open>as_MapLayerType\<close>: \<^verbatim>\<open>static_cast<crp::MapLayerType>(MapLayer)\<close> of an \<^verbatim>\<open>int32\<close>,
    read back as the \<^verbatim>\<open>int32\<close> that \<^verbatim>\<open>&\<close> combines with \<^verbatim>\<open>LayerMask\<close>
    (the underlying type of the enum is declared in the same header).
  \<^item> \<open>MapLayerToString\<close>: \<^verbatim>\<open>MapLayerToString(static_cast<crp::MapLayer>(LayerMask))\<close>,
    the layer-name fragment of a bit value.
  \<^item> \<open>Contains\<close>: the engine's \<^verbatim>\<open>FString::Contains\<close>, \<open>Contains s sub\<close> for
    \<^verbatim>\<open>s.Contains(sub)\<close> with its default search arguments.
\<close>

record Externals =
  MapLayer_All :: int32
  as_MapLayerType :: "int32 \<Rightarrow> int32"
  MapLayerToString :: "int32 \<Rightarrow> string"
  Contains :: "string \<Rightarrow> string \<Rightarrow> bool"

subsection \<open>ConvertMapLayerMaskToMapNames: the bit walk\<close>

text \<open>
  The loop of lines 437 to 447, from any value of the running \<^verbatim>\<open>LayerMask\<close>:
  \<^verbatim>\<open>
  while(LayerMask > 0) {
    FString LayerName = UTF8_TO_TCHAR(MapLayerToString(static_cast<crp::MapLayer>(LayerMask)).c_str());
    bool included = static_cast<crp::MapLayerType>(MapLayer) & LayerMask;
    if(included) { LayersToLoad.Emplace(LayerName); }
    LayerMask = (LayerMask << 1) & AllLayersMask;
  }
  \<close>
  \<^verbatim>\<open>LayerMask\<close> is a signed 32-bit integer: the test reads it with \<open>sint\<close>, and the shift
  of \<open>0x40000000\<close> gives the negative \<open>0x80000000\<close>, which ends the loop.
\<close>

function layer_walk :: "Externals \<Rightarrow> int32 \<Rightarrow> int32 \<Rightarrow> string list \<Rightarrow> string list" where
  "layer_walk ext MapLayer LayerMask LayersToLoad =
     (if 0 < sint LayerMask then
        let LayerName = MapLayerToString ext LayerMask;
            included = (as_MapLayerType ext MapLayer AND LayerMask \<noteq> 0);
            LayersToLoad' = (if included then LayersToLoad @ [LayerName] else LayersToLoad)
        in layer_walk ext MapLayer (push_bit 1 LayerMask AND MapLayer_All ext) LayersToLoad'
      else LayersToLoad)"
  by pat_completeness auto

subsection \<open>ConvertMapLayerMaskToMapNames: the name matching\<close>

datatype error = ArrayIndexOutOfRange

text \<open>
  \<^verbatim>\<open>FullSubMapName.ParseIntoArray(StringArray, TEXT("/"), false)\<close>: the pieces between the
  slashes, empty pieces kept; the empty string gives the empty array.
\<close>

fun split_slash :: "string \<Rightarrow> string \<Rightarrow> string list" where
  "split_slash piece [] = [piece]"
| "split_slash piece (c # cs) =
     (if c = CHR ''/'' then piece # split_slash [] cs else split_slash (piece @ [c]) cs)"

definition ParseIntoArray :: "string \<Rightarrow> string list" where
  "ParseIntoArray s = (if s = [] then [] else split_slash [] s)"

text \<open>
  Lines 452 to 456: \<^verbatim>\<open>FString SubMapName = StringArray[StringArray.Num() - 1]\<close>.
  The index is out of range when the array is empty.
\<close>

definition SubMapName_of :: "string \<Rightarrow> error + string" where
  "SubMapName_of FullSubMapName =
     (let StringArray = ParseIntoArray FullSubMapName
      in if length StringArray = 0 then Inl ArrayIndexOutOfRange
         else Inr (StringArray ! (length StringArray - 1)))"

text \<open>
  The last path component of a name: what follows its last slash, the whole name when it
  has no slash. The results below are stated with it; \<open>SubMapName_of_eq\<close> shows that it
  is the \<^verbatim>\<open>SubMapName\<close> of lines 452 to 456.
\<close>

definition last_component :: "string \<Rightarrow> string" where
  "last_component s = rev (takeWhile (\<lambda>c. c \<noteq> CHR ''/'') (rev s))"

text \<open>Lines 457 to 464: the loop over \<^verbatim>\<open>LayersToLoad\<close>, left at the first match.\<close>

fun match_layers :: "Externals \<Rightarrow> string \<Rightarrow> string list \<Rightarrow> string list \<Rightarrow> string list" where
  "match_layers ext SubMapName [] OutLevelNames = OutLevelNames"
| "match_layers ext SubMapName (LayerName # LayersToLoad) OutLevelNames =
     (if Contains ext SubMapName LayerName then OutLevelNames @ [SubMapName]
      else match_layers ext SubMapName LayersToLoad OutLevelNames)"

text \<open>
  Lines 450 to 465: the loop over the streaming levels. A level is given by the string
  \<^verbatim>\<open>Level->GetWorldAssetPackageFName().ToString()\<close>; a name put in the output is the
  string the \<^verbatim>\<open>FName\<close> is made of.
\<close>

fun match_levels ::
  "Externals \<Rightarrow> string list \<Rightarrow> string list \<Rightarrow> string list \<Rightarrow> error + string list" where
  "match_levels ext LayersToLoad [] OutLevelNames = Inr OutLevelNames"
| "match_levels ext LayersToLoad (Level # Levels) OutLevelNames =
     (case SubMapName_of Level of
        Inl e \<Rightarrow> Inl e
      | Inr SubMapName \<Rightarrow>
          match_levels ext LayersToLoad Levels
            (match_layers ext SubMapName LayersToLoad OutLevelNames))"

text \<open>The whole function; \<^verbatim>\<open>OutLevelNames\<close> is passed by reference and never cleared.\<close>

definition ConvertMapLayerMaskToMapNames ::
  "Externals \<Rightarrow> string list \<Rightarrow> int32 \<Rightarrow> string list \<Rightarrow> error + string list" where
  "ConvertMapLayerMaskToMapNames ext Levels MapLayer OutLevelNames =
     (let LayersToLoad = layer_walk ext MapLayer 1 []
      in match_levels ext LayersToLoad Levels OutLevelNames)"

text \<open>
  The resolved sub-level list of a mask, stated apart from the two loops of lines 449 to
  465: the short names of the known sub-levels whose short name contains a fragment
  collected by the bit walk, one per sub-level, in the order of the list.
\<close>

definition resolved_names :: "Externals \<Rightarrow> string list \<Rightarrow> int32 \<Rightarrow> string list" where
  "resolved_names ext Levels MapLayer =
     map last_component
       (filter (\<lambda>Level. \<exists>LayerName \<in> set (layer_walk ext MapLayer 1 []).
                   Contains ext (last_component Level) LayerName) Levels)"

subsection \<open>The game mode: counters, ready flag and the calls it makes\<close>

datatype call =
    LoadStreamLevel string int
  | UnloadStreamLevel string int
  | RegisterObjects
  | TagActorsInLevel
  | HostCall string

text \<open>
  \<open>StreamingLevels\<close> is \<^verbatim>\<open>GetWorld()->GetStreamingLevels()\<close>, \<open>CurrentMapLayer\<close> is
  \<^verbatim>\<open>GameInstance->GetCurrentMapLayer()\<close>, \<open>HasWeather\<close> is \<^verbatim>\<open>Episode->Weather != nullptr\<close>
  and \<open>HasRecorder\<close> is \<^verbatim>\<open>Recorder\<close> read as a condition. The two counters are integer
  members of the class; they are assigned \<^verbatim>\<open>TArray::Num()\<close> and decremented, and no
  claim below needs them near the ends of their range, so they are modelled as \<open>int\<close>.
  \<open>calls\<close> lists the calls made into the engine so far, oldest first.
\<close>

record GameMode =
  StreamingLevels :: "string list"
  CurrentMapLayer :: int32
  HasWeather :: bool
  HasRecorder :: bool
  PendingLevelsToLoad :: int
  PendingLevelsToUnLoad :: int
  ReadyToRegisterObjects :: bool
  calls :: "call list"

definition emit :: "call \<Rightarrow> GameMode \<Rightarrow> GameMode" where
  "emit c s = s\<lparr>calls := calls s @ [c]\<rparr>"

text \<open>Lines 366 to 372.\<close>

definition RegisterEnvironmentObjects :: "GameMode \<Rightarrow> GameMode" where
  "RegisterEnvironmentObjects s = emit RegisterObjects s"

text \<open>The loops of lines 396 to 400 and 419 to 423; \<open>UUID\<close> is \<^verbatim>\<open>LatentInfo.UUID\<close>.\<close>

fun load_levels :: "string list \<Rightarrow> int \<Rightarrow> GameMode \<Rightarrow> GameMode" where
  "load_levels [] UUID s = s"
| "load_levels (LevelName # LevelsToLoad) UUID s =
     load_levels LevelsToLoad (UUID + 1) (emit (LoadStreamLevel LevelName UUID) s)"

fun unload_levels :: "string list \<Rightarrow> int \<Rightarrow> GameMode \<Rightarrow> GameMode" where
  "unload_levels [] UUID s = s"
| "unload_levels (LevelName # LevelsToUnLoad) UUID s =
     unload_levels LevelsToUnLoad (UUID + 1) (emit (UnloadStreamLevel LevelName UUID) s)"

text \<open>The calls the two loops add to the trace, to state what they issue.\<close>

fun load_calls :: "string list \<Rightarrow> int \<Rightarrow> call list" where
  "load_calls [] UUID = []"
| "load_calls (LevelName # LevelsToLoad) UUID =
     LoadStreamLevel LevelName UUID # load_calls LevelsToLoad (UUID + 1)"

fun unload_calls :: "string list \<Rightarrow> int \<Rightarrow> call list" where
  "unload_calls [] UUID = []"
| "unload_calls (LevelName # LevelsToUnLoad) UUID =
     UnloadStreamLevel LevelName UUID # unload_calls LevelsToUnLoad (UUID + 1)"

definition LoadMapLayer :: "Externals \<Rightarrow> int32 \<Rightarrow> GameMode \<Rightarrow> error + GameMode" where
  "LoadMapLayer ext MapLayers s =
     (case ConvertMapLayerMaskToMapNames ext (StreamingLevels s) MapLayers [] of
        Inl e \<Rightarrow> Inl e
      | Inr LevelsToLoad \<Rightarrow>
          Inr (load_levels LevelsToLoad 1
                (s\<lparr>PendingLevelsToLoad := int (length LevelsToLoad)\<rparr>)))"

definition UnLoadMapLayer :: "Externals \<Rightarrow> int32 \<Rightarrow> GameMode \<Rightarrow> error + GameMode" where
  "UnLoadMapLayer ext MapLayers s =
     (case ConvertMapLayerMaskToMapNames ext (StreamingLevels s) MapLayers [] of
        Inl e \<Rightarrow> Inl e
      | Inr LevelsToUnLoad \<Rightarrow>
          Inr (unload_levels LevelsToUnLoad 1
                (s\<lparr>PendingLevelsToUnLoad := int (length LevelsToUnLoad)\<rparr>)))"

text \<open>Lines 492 to 502.\<close>

definition OnLoadStreamLevel :: "GameMode \<Rightarrow> GameMode" where
  "OnLoadStreamLevel s =
     (let s1 = s\<lparr>PendingLevelsToLoad := PendingLevelsToLoad s - 1\<rparr>
      in if ReadyToRegisterObjects s1 \<and> PendingLevelsToLoad s1 = 0
         then emit TagActorsInLevel (RegisterEnvironmentObjects s1)
         else s1)"

text \<open>Lines 504 to 512.\<close>

definition OnUnloadStreamLevel :: "GameMode \<Rightarrow> GameMode" where
  "OnUnloadStreamLevel s =
     (let s1 = s\<lparr>PendingLevelsToUnLoad := PendingLevelsToUnLoad s - 1\<rparr>
      in if ReadyToRegisterObjects s1 \<and> PendingLevelsToUnLoad s1 = 0
         then RegisterEnvironmentObjects s1
         else s1)"

text \<open>
  Lines 125 to 170. The calls that set up the episode (decal, traffic lights, episode,
  weather, recorder) are kept in the trace by name; none of them is given access to the
  counters or to the flag.
\<close>

definition BeginPlay :: "Externals \<Rightarrow> GameMode \<Rightarrow> error + GameMode" where
  "BeginPlay ext s =
     (case LoadMapLayer ext (CurrentMapLayer s) (emit (HostCall ''Super::BeginPlay'') s) of
        Inl e \<Rightarrow> Inl e
      | Inr s1 \<Rightarrow>
          let s2 = s1\<lparr>ReadyToRegisterObjects := True\<rparr>;
              s3 = emit TagActorsInLevel s2;
              s4 = emit (HostCall ''TaggerDelegate->SetSemanticSegmentationEnabled'') s3;
              s5 = emit (HostCall ''SpawnActor<ADecalActor>'') s4;
              s6 = emit (HostCall ''GetTrafficLightManager'') s5;
              s7 = emit (HostCall ''Manager->InitializeTrafficLights'') s6;
              s8 = emit (HostCall ''Episode->InitializeAtBeginPlay'') s7;
              s9 = emit (HostCall ''GameInstance->NotifyBeginEpisode'') s8;
              s10 = (if HasWeather s9 then emit (HostCall ''Weather->ApplyWeather'') s9 else s9);
              s11 = (if HasRecorder s10
                     then emit (HostCall ''Replayer->CheckPlayAfterMapLoaded'') s10 else s10)
          in Inr (if ReadyToRegisterObjects s11 \<and> PendingLevelsToLoad s11 = 0
                  then RegisterEnvironmentObjects s11 else s11))"

subsection \<open>Sequences of engine events\<close>

text \<open>
  What can happen while a load batch is in flight short of another load request:
  a load completion, an unload completion, an unload request.
\<close>

datatype event = LoadCompleted | UnloadCompleted | UnloadRequested int32

fun step :: "Externals \<Rightarrow> event \<Rightarrow> GameMode \<Rightarrow> error + GameMode" where
  "step ext LoadCompleted s = Inr (OnLoadStreamLevel s)"
| "step ext UnloadCompleted s = Inr (OnUnloadStreamLevel s)"
| "step ext (UnloadRequested MapLayers) s = UnLoadMapLayer ext MapLayers s"

fun run :: "Externals \<Rightarrow> event list \<Rightarrow> GameMode \<Rightarrow> error + GameMode" where
  "run ext [] s = Inr s"
| "run ext (e # es) s = (case step ext e s of Inl err \<Rightarrow> Inl err | Inr s' \<Rightarrow> run ext es s')"

subsection \<open>An instance of the parameters\<close>

text \<open>
  A layer enumeration of nine one-bit layers over a 16-bit unsigned \<^verbatim>\<open>MapLayerType\<close> with
  \<open>All = 0xFFFF\<close>, and containment as contiguous sublist. It is used to run the model on
  concrete inputs.
\<close>

definition demo_MapLayerToString :: "int32 \<Rightarrow> string" where
  "demo_MapLayerToString m =
     (if m = 0 then ''None''
      else if m = 1 then ''Buildings''
      else if m = 2 then ''Decals''
      else if m = 4 then ''Foliage''
      else if m = 8 then ''Ground''
      else if m = 16 then ''ParkedVehicles''
      else if m = 32 then ''Particles''
      else if m = 64 then ''Props''
      else if m = 128 then ''StreetLights''
      else if m = 256 then ''Walls''
      else if m = 65535 then ''All''
      else ''Invalid'')"

definition demo_ext :: Externals where
  "demo_ext = \<lparr>MapLayer_All = 65535, as_MapLayerType = take_bit 16,
     MapLayerToString = demo_MapLayerToString, Contains = (\<lambda>s sub. sublist sub s)\<rparr>"

definition demo_levels :: "string list" where
  "demo_levels = [''/Game/Carla/Maps/Sublevels/Town01_Decals'',
                  ''/Game/Carla/Maps/Sublevels/Town01_Foliage'',
                  ''/Game/Carla/Maps/Sublevels/Town01_Buildings'']"

definition demo_state :: GameMode where
  "demo_state = \<lparr>StreamingLevels = demo_levels, CurrentMapLayer = 6,
     HasWeather = True, HasRecorder = True,
     PendingLevelsToLoad = 0, PendingLevelsToUnLoad = 0,
     ReadyToRegisterObjects = False, calls = []\<rparr>"

definition demo_ready :: GameMode where
  "demo_ready = demo_state\<lparr>ReadyToRegisterObjects := True\<rparr>"

text \<open>\<open>demo_ready\<close> after a load request for Decals and Foliage.\<close>

definition demo_loading :: GameMode where
  "demo_loading = demo_ready\<lparr>PendingLevelsToLoad := 2,
     calls := [LoadStreamLevel ''Town01_Decals'' 1, LoadStreamLevel ''Town01_Foliage'' 2]\<rparr>"

text \<open>\<open>demo_loading\<close> after a second load request, for Buildings, made before any completion.\<close>

definition demo_overlap :: GameMode where
  "demo_overlap = demo_loading\<lparr>PendingLevelsToLoad := 1,
     calls := [LoadStreamLevel ''Town01_Decals'' 1, LoadStreamLevel ''Town01_Foliage'' 2,
               LoadStreamLevel ''Town01_Buildings'' 1]\<rparr>"

text \<open>
  The property of the parameters under which the bit walk visits every bit of \<open>All\<close>:
  \<open>All\<close> is the block of the \<open>k\<close> lowest bits, below the sign bit, and the conversion to
  \<^verbatim>\<open>MapLayerType\<close> keeps these bits.
\<close>

definition layer_enum :: "Externals \<Rightarrow> nat \<Rightarrow> bool" where
  "layer_enum ext k \<longleftrightarrow>
     0 < k \<and> k \<le> 31 \<and> MapLayer_All ext = mask k \<and>
     (\<forall>m. take_bit k (as_MapLayerType ext m) = take_bit k m)"

section \<open>Termination of the bit walk\<close>

text \<open>Facts about reversed words that give the measure of the \<^verbatim>\<open>while\<close> loop.\<close>

lemma rev_step_bits:
  "word_reverse (push_bit 1 (w :: int32) AND a) AND drop_bit 1 (word_reverse w)
        = word_reverse (push_bit 1 w AND a)"
proof -
  define X where "X = push_bit 1 w AND a"
  have "word_reverse X AND drop_bit 1 (word_reverse w) = word_reverse X"
  proof (rule bit_eqI)
    fix n
    have "bit (drop_bit 1 (word_reverse w)) n" if A: "bit (word_reverse X) n"
    proof -
      from A have n: "n < 32" and "bit X (31 - n)"
        by (simp_all add: bit_word_reverse_iff)
      then have "bit (push_bit 1 w) (31 - n)"
        by (simp only: X_def bit_and_iff)
      then have "1 \<le> 31 - n" and "bit w (31 - n - 1)"
        by (simp_all only: bit_push_bit_iff)
      then have "Suc n < 32" and "bit w (32 - Suc (Suc n))"
        by simp_all
      then have "bit (word_reverse w) (Suc n)"
        by (simp add: bit_word_reverse_iff)
      then show ?thesis
        by (simp add: bit_drop_bit_eq)
    qed
    then show "bit (word_reverse X AND drop_bit 1 (word_reverse w)) n = bit (word_reverse X) n"
      unfolding bit_and_iff [of "word_reverse X"] by blast
  qed
  then show ?thesis by (simp only: X_def)
qed

lemma rev_step_less:
  assumes "(w :: int32) \<noteq> 0"
  shows "unat (word_reverse (push_bit 1 w AND a)) < unat (word_reverse w)"
proof -
  have "word_reverse w \<noteq> 0"
  proof
    assume "word_reverse w = 0"
    then have "word_reverse (word_reverse w) = word_reverse 0" by simp
    moreover have "word_reverse (0 :: int32) = 0"
      by (rule bit_eqI) (simp add: bit_word_reverse_iff)
    ultimately show False using assms by simp
  qed
  then have pos: "0 < unat (word_reverse w)"
    by (simp add: unat_gt_0)
  have "unat (drop_bit 1 (word_reverse w)) = unat (word_reverse w) div 2"
    by (simp add: drop_bit_eq_div unat_div)
  with pos have a: "unat (drop_bit 1 (word_reverse w)) < unat (word_reverse w)"
    by simp
  have "word_reverse (push_bit 1 w AND a) \<le> drop_bit 1 (word_reverse w)"
    using word_and_le1 [of "word_reverse (push_bit 1 w AND a)" "drop_bit 1 (word_reverse w)"]
    by (simp only: rev_step_bits)
  then have "unat (word_reverse (push_bit 1 w AND a)) \<le> unat (drop_bit 1 (word_reverse w))"
    by (simp add: word_le_nat_alt)
  with a show ?thesis by simp
qed

termination layer_walk
proof (relation "measure (\<lambda>(ext, MapLayer, LayerMask, LayersToLoad). unat (word_reverse LayerMask))")
  show "wf (measure (\<lambda>(ext :: Externals, MapLayer :: int32, LayerMask :: int32,
          LayersToLoad :: string list). unat (word_reverse LayerMask)))"
    by simp
next
  fix ext :: Externals and MapLayer LayerMask :: int32 and LayersToLoad xb :: "string list"
  assume "0 < sint LayerMask"
  then have "LayerMask \<noteq> 0" by auto
  then have "unat (word_reverse (push_bit 1 LayerMask AND MapLayer_All ext))
             < unat (word_reverse LayerMask)"
    by (rule rev_step_less)
  then show "((ext, MapLayer, push_bit 1 LayerMask AND MapLayer_All ext, xb),
              ext, MapLayer, LayerMask, LayersToLoad)
             \<in> measure (\<lambda>(ext, MapLayer, LayerMask, LayersToLoad). unat (word_reverse LayerMask))"
    by (simp only: in_measure prod.case)
qed

declare layer_walk.simps [simp del]

section \<open>The bit walk collects the layers of the mask\<close>

lemma sint_pos_iff: "0 < sint (w :: int32) \<longleftrightarrow> w \<noteq> 0 \<and> \<not> bit w 31"
proof -
  have "bit w 31 \<longleftrightarrow> sint w < 0"
    using bit_last_iff [of w] by simp
  moreover have "sint w = 0 \<longleftrightarrow> w = 0"
    by (rule signed_eq_0_iff)
  ultimately show ?thesis by auto
qed

lemma pow2_neq_0: "i < 32 \<Longrightarrow> (2 :: int32) ^ i \<noteq> 0"
  by (simp add: exp_eq_zero_iff)

lemma sint_pow2_pos: "i < 31 \<Longrightarrow> 0 < sint ((2 :: int32) ^ i)"
  by (simp add: sint_pos_iff pow2_neq_0 bit_exp_iff)

lemma step_pow2:
  "Suc i \<le> 31 \<Longrightarrow> push_bit 1 ((2 :: int32) ^ i) AND mask k = (if Suc i < k then 2 ^ Suc i else 0)"
proof -
  assume i: "Suc i \<le> 31"
  have "push_bit 1 ((2 :: int32) ^ i) = 2 ^ Suc i"
    by (simp add: push_bit_eq_mult)
  moreover have "(2 :: int32) ^ Suc i AND mask k = (if Suc i < k then 2 ^ Suc i else 0)"
    using i by (intro bit_eqI) (auto simp only: bit_and_iff bit_exp_iff bit_mask_iff bit_0_eq
        split: if_splits)
  ultimately show ?thesis by (simp only:)
qed

lemma layer_walk_0: "layer_walk ext M 0 xs = xs"
  by (subst layer_walk.simps) simp

lemma walk_pow2:
  assumes "MapLayer_All ext = mask k" and "k \<le> 31" and "i < k"
  shows "layer_walk ext M (2 ^ i) acc =
    acc @ map (\<lambda>j. MapLayerToString ext (2 ^ j)) (filter (\<lambda>j. bit (as_MapLayerType ext M) j) [i..<k])"
  using assms(3)
proof (induction "k - i" arbitrary: i acc)
  case 0
  then show ?case by simp
next
  case (Suc d)
  from Suc.prems assms(2) have pos: "0 < sint ((2 :: int32) ^ i)"
    by (intro sint_pow2_pos) simp
  from Suc.prems assms(2) have nxt:
    "push_bit 1 ((2 :: int32) ^ i) AND MapLayer_All ext = (if Suc i < k then 2 ^ Suc i else 0)"
    unfolding assms(1) by (intro step_pow2) simp
  have inc: "(as_MapLayerType ext M AND 2 ^ i \<noteq> 0) = bit (as_MapLayerType ext M) i"
    by (simp add: and_exp_eq_0_iff_not_bit)
  have upt: "[i..<k] = i # [Suc i..<k]"
    using Suc.prems by (simp add: upt_conv_Cons)
  show ?case
  proof (cases "Suc i < k")
    case True
    with Suc.hyps have d: "d = k - Suc i" by simp
    show ?thesis
      apply (subst layer_walk.simps)
      apply (simp only: pos if_True Let_def nxt True inc Suc.hyps(1) [OF d True] upt)
      apply simp
      done
  next
    case False
    with Suc.prems have k: "k = Suc i" by simp
    show ?thesis
      apply (subst layer_walk.simps)
      apply (simp only: pos if_True Let_def nxt False if_False layer_walk_0 upt inc)
      apply (simp add: k)
      done
  qed
qed

lemma layer_enum_bit:
  assumes "layer_enum ext k" and "i < k"
  shows "bit (as_MapLayerType ext m) i = bit m i"
proof -
  from assms(1) have "take_bit k (as_MapLayerType ext m) = take_bit k m"
    by (simp add: layer_enum_def)
  then have "bit (take_bit k (as_MapLayerType ext m)) i = bit (take_bit k m) i"
    by simp
  with assms(2) show ?thesis
    by (simp add: bit_take_bit_iff)
qed

lemma layer_walk_enum:
  assumes "layer_enum ext k"
  shows "layer_walk ext M 1 [] = map (\<lambda>j. MapLayerToString ext (2 ^ j)) (filter (bit M) [0..<k])"
proof -
  from assms have a: "MapLayer_All ext = mask k" and k: "k \<le> 31" "0 < k"
    by (simp_all add: layer_enum_def)
  have "layer_walk ext M (2 ^ 0) [] =
      [] @ map (\<lambda>j. MapLayerToString ext (2 ^ j)) (filter (\<lambda>j. bit (as_MapLayerType ext M) j) [0..<k])"
    using a k by (rule walk_pow2)
  moreover have "filter (\<lambda>j. bit (as_MapLayerType ext M) j) [0..<k] = filter (bit M) [0..<k]"
    by (rule filter_cong) (simp_all add: layer_enum_bit [OF assms])
  ultimately show ?thesis by simp
qed

lemma filter_both_masks:
  assumes "k \<le> 31"
  shows "filter (\<lambda>i. bit (M :: int32) i \<and> bit (mask k :: int32) i) [0..<32] = filter (bit M) [0..<k]"
proof -
  have "[0..<32] = [0..<k] @ [k..<32]"
    using assms upt_add_eq_append [of 0 k "32 - k"] by simp
  moreover have "filter (\<lambda>i. bit M i \<and> bit (mask k :: int32) i) [0..<k] = filter (bit M) [0..<k]"
    using assms by (intro filter_cong) (auto simp: bit_mask_iff)
  moreover have "filter (\<lambda>i. bit M i \<and> bit (mask k :: int32) i) [k..<32] = []"
    by (simp add: bit_mask_iff)
  ultimately show ?thesis by simp
qed

text \<open>
  C5. For every 32-bit layer mask, the bit walk collects exactly the layer-name fragments
  of the bit positions set both in the mask and in \<open>All\<close>, lowest bit first; a bit of the
  mask that is not in \<open>All\<close> adds nothing and raises no error (the walk is a total
  function). \<open>All\<close> and the mask type come from \<^verbatim>\<open>carla/rpc/MapLayer.h\<close>: the statement
  is for every enumeration whose \<open>All\<close> is a block of low bits (\<open>layer_enum\<close>).
\<close>

theorem layer_walk_collects:
  assumes "layer_enum ext k"
  shows "layer_walk ext MapLayer 1 [] =
    map (\<lambda>i. MapLayerToString ext (2 ^ i))
      (filter (\<lambda>i. bit MapLayer i \<and> bit (MapLayer_All ext) i) [0..<32])"
proof -
  from assms have a: "MapLayer_All ext = mask k" and k: "k \<le> 31"
    by (simp_all add: layer_enum_def)
  show ?thesis
    by (simp only: layer_walk_enum [OF assms] a filter_both_masks [OF k])
qed

text \<open>The mask \<open>0x10006\<close> (Decals, Foliage and a bit outside \<open>All\<close>) on the instance.\<close>

theorem layer_walk_collects_witness:
  "layer_enum demo_ext 16 \<and> layer_walk demo_ext 0x10006 1 [] = [''Decals'', ''Foliage'']"
proof -
  have h: "layer_enum demo_ext 16"
    by (simp add: layer_enum_def demo_ext_def mask_eq_exp_minus_1)
  have "map (\<lambda>i. MapLayerToString demo_ext (2 ^ i))
      (filter (\<lambda>i. bit (0x10006 :: int32) i \<and> bit (MapLayer_All demo_ext) i) [0..<32])
      = [''Decals'', ''Foliage'']"
    by code_simp
  with h layer_walk_collects [OF h, of "0x10006"] show ?thesis
    by (simp only:)
qed

section \<open>The name-matching pass\<close>

lemma takeWhile_no_slash:
  "CHR ''/'' \<notin> set s \<Longrightarrow> takeWhile (\<lambda>c. c \<noteq> CHR ''/'') (rev s @ t) = rev s @ takeWhile (\<lambda>c. c \<noteq> CHR ''/'') t"
  by (rule takeWhile_append2) auto

lemma takeWhile_slash:
  "CHR ''/'' \<in> set s \<Longrightarrow> takeWhile (\<lambda>c. c \<noteq> CHR ''/'') (rev s @ t) = takeWhile (\<lambda>c. c \<noteq> CHR ''/'') (rev s)"
  by (rule takeWhile_append1 [of "CHR ''/''"]) auto

lemma last_component_no_slash:
  assumes "CHR ''/'' \<notin> set s"
  shows "last_component s = s"
proof -
  from assms have "\<forall>c \<in> set (rev s). c \<noteq> CHR ''/''" by auto
  then have "takeWhile (\<lambda>c. c \<noteq> CHR ''/'') (rev s) = rev s"
    by (simp only: takeWhile_eq_all_conv)
  then show ?thesis
    by (simp only: last_component_def rev_rev_ident)
qed

lemma split_slash_not_Nil: "split_slash piece s \<noteq> []"
  by (induction s arbitrary: piece) auto

lemma last_split_slash:
  "last (split_slash piece s) =
     (if CHR ''/'' \<in> set s then last_component s else piece @ s)"
proof (induction s arbitrary: piece)
  case Nil
  then show ?case by simp
next
  case (Cons c cs)
  show ?case
  proof (cases "c = CHR ''/''")
    case True
    have "last (split_slash piece (c # cs)) = last (split_slash [] cs)"
      using True by (simp add: split_slash_not_Nil)
    also have "\<dots> = (if CHR ''/'' \<in> set cs then last_component cs else cs)"
      by (simp add: Cons.IH)
    also have "\<dots> = last_component (c # cs)"
      using True by (auto simp: last_component_def takeWhile_no_slash takeWhile_slash)
    finally show ?thesis using True by simp
  next
    case False
    have "last (split_slash piece (c # cs)) = last (split_slash (piece @ [c]) cs)"
      using False by simp
    also have "\<dots> = (if CHR ''/'' \<in> set cs then last_component cs else piece @ c # cs)"
      by (simp add: Cons.IH)
    also have "\<dots> = (if CHR ''/'' \<in> set (c # cs) then last_component (c # cs) else piece @ c # cs)"
      using False by (auto simp: last_component_def takeWhile_slash)
    finally show ?thesis .
  qed
qed

lemma SubMapName_of_eq:
  "SubMapName_of s = (if s = [] then Inl ArrayIndexOutOfRange else Inr (last_component s))"
proof (cases "s = []")
  case True
  then show ?thesis by (simp add: SubMapName_of_def ParseIntoArray_def)
next
  case False
  have "split_slash [] s ! (length (split_slash [] s) - 1) = last (split_slash [] s)"
    by (simp add: last_conv_nth split_slash_not_Nil)
  also have "\<dots> = last_component s"
    by (simp add: last_split_slash last_component_no_slash)
  finally show ?thesis
    using False by (simp add: SubMapName_of_def ParseIntoArray_def split_slash_not_Nil)
qed

lemma match_layers_eq:
  "match_layers ext n LayersToLoad out =
     out @ (if \<exists>f \<in> set LayersToLoad. Contains ext n f then [n] else [])"
  by (induction LayersToLoad) auto

lemma match_levels_eq:
  assumes "\<forall>l \<in> set Levels. l \<noteq> []"
  shows "match_levels ext LayersToLoad Levels out =
     Inr (out @ map last_component
        (filter (\<lambda>l. \<exists>f \<in> set LayersToLoad. Contains ext (last_component l) f) Levels))"
  using assms
proof (induction Levels arbitrary: out)
  case Nil
  then show ?case by simp
next
  case (Cons l ls)
  then have "l \<noteq> []" and "\<forall>l \<in> set ls. l \<noteq> []" by simp_all
  then show ?case
    by (simp add: SubMapName_of_eq match_layers_eq Cons.IH)
qed

lemma match_levels_error:
  assumes "[] \<in> set Levels"
  shows "match_levels ext LayersToLoad Levels out = Inl ArrayIndexOutOfRange"
  using assms
proof (induction Levels arbitrary: out)
  case Nil
  then show ?case by simp
next
  case (Cons l ls)
  then show ?case
    by (cases "l = []") (auto simp: SubMapName_of_eq)
qed

lemma Convert_ok_iff:
  "(\<exists>names. ConvertMapLayerMaskToMapNames ext Levels M out = Inr names) \<longleftrightarrow> [] \<notin> set Levels"
proof (cases "[] \<in> set Levels")
  case True
  then show ?thesis
    by (simp add: ConvertMapLayerMaskToMapNames_def match_levels_error)
next
  case False
  then have "\<forall>l \<in> set Levels. l \<noteq> []" by auto
  then show ?thesis
    using False by (simp add: ConvertMapLayerMaskToMapNames_def match_levels_eq)
qed

text \<open>
  C6. In the name-matching pass a known sub-level is put in the output exactly when its
  short name (the last path component) contains at least one collected layer fragment:
  once per sub-level, however many fragments match, nothing for a sub-level that matches
  none, in the order of the known sub-level list. Containment is the engine's
  \<^verbatim>\<open>FString::Contains\<close>.
\<close>

theorem name_matching_pass:
  assumes "\<forall>Level \<in> set Levels. Level \<noteq> []"
  shows "ConvertMapLayerMaskToMapNames ext Levels MapLayer OutLevelNames =
     Inr (OutLevelNames @ map last_component
        (filter (\<lambda>Level. \<exists>LayerName \<in> set (layer_walk ext MapLayer 1 []).
                    Contains ext (last_component Level) LayerName) Levels))"
  using assms by (simp add: ConvertMapLayerMaskToMapNames_def match_levels_eq)

text \<open>
  Decals and Foliage requested: a level that matches both is put once, levels that match
  neither in their last component are left out.
\<close>

theorem name_matching_pass_witness:
  "ConvertMapLayerMaskToMapNames demo_ext
     [''/Game/Maps/Town01_Decals'', ''Town01_Walls'', ''/Game/Maps/Decals_Foliage'',
      ''/Game/Foliage/Town01_Opt'', ''/Game/Maps/Town01_Foliage''] 6 [''Kept'']
   = Inr [''Kept'', ''Town01_Decals'', ''Decals_Foliage'', ''Town01_Foliage'']"
proof -
  let ?L = "[''/Game/Maps/Town01_Decals'', ''Town01_Walls'', ''/Game/Maps/Decals_Foliage'',
        ''/Game/Foliage/Town01_Opt'', ''/Game/Maps/Town01_Foliage'']"
  have h: "\<forall>Level \<in> set ?L. Level \<noteq> []"
    by simp
  have "[''Kept''] @ map last_component
        (filter (\<lambda>Level. \<exists>LayerName \<in> set (layer_walk demo_ext 6 1 []).
                    Contains demo_ext (last_component Level) LayerName) ?L)
     = [''Kept'', ''Town01_Decals'', ''Decals_Foliage'', ''Town01_Foliage'']"
    by code_simp
  with name_matching_pass [OF h, of demo_ext 6 "[''Kept'']"] show ?thesis
    by (simp only:)
qed

section \<open>The empty mask and the full mask\<close>

lemma layer_walk_none:
  assumes "layer_enum ext k"
  shows "layer_walk ext 0 1 [] = []"
  by (simp add: layer_walk_enum [OF assms])

lemma layer_walk_all:
  assumes "layer_enum ext k"
  shows "layer_walk ext (MapLayer_All ext) 1 [] = map (\<lambda>j. MapLayerToString ext (2 ^ j)) [0..<k]"
proof -
  from assms have a: "MapLayer_All ext = mask k" and k: "k \<le> 31"
    by (simp_all add: layer_enum_def)
  have "filter (bit (mask k :: int32)) [0..<k] = [0..<k]"
    using k by (simp add: bit_mask_iff)
  then show ?thesis
    by (simp add: layer_walk_enum [OF assms] a)
qed

text \<open>
  C7. For every known sub-level list \<open>S\<close>: the mask 0 resolves to the empty list, and the
  mask \<open>All\<close> resolves to all of \<open>S\<close> (the short names, in order) when every name in \<open>S\<close>
  contains at least one layer fragment.
\<close>

theorem resolve_none_and_all:
  assumes "layer_enum ext k" and "\<forall>Level \<in> set S. Level \<noteq> []"
  shows "ConvertMapLayerMaskToMapNames ext S 0 [] = Inr [] \<and>
    ((\<forall>Level \<in> set S. \<exists>i < k.
         Contains ext (last_component Level) (MapLayerToString ext (2 ^ i))) \<longrightarrow>
     ConvertMapLayerMaskToMapNames ext S (MapLayer_All ext) [] = Inr (map last_component S))"
proof
  show "ConvertMapLayerMaskToMapNames ext S 0 [] = Inr []"
    using assms(2)
    by (simp add: ConvertMapLayerMaskToMapNames_def match_levels_eq layer_walk_none [OF assms(1)])
next
  show "(\<forall>Level \<in> set S. \<exists>i < k.
         Contains ext (last_component Level) (MapLayerToString ext (2 ^ i))) \<longrightarrow>
     ConvertMapLayerMaskToMapNames ext S (MapLayer_All ext) [] = Inr (map last_component S)"
  proof
    assume m: "\<forall>Level \<in> set S. \<exists>i < k.
         Contains ext (last_component Level) (MapLayerToString ext (2 ^ i))"
    have "filter (\<lambda>l. \<exists>f \<in> set (map (\<lambda>j. MapLayerToString ext (2 ^ j)) [0..<k]).
              Contains ext (last_component l) f) S = S"
      using m by (intro filter_True) (force simp: atLeast0LessThan)
    then show "ConvertMapLayerMaskToMapNames ext S (MapLayer_All ext) [] = Inr (map last_component S)"
      using assms(2)
      by (simp only: ConvertMapLayerMaskToMapNames_def Let_def match_levels_eq
          layer_walk_all [OF assms(1)] append_Nil)
  qed
qed

theorem resolve_none_and_all_witness:
  "layer_enum demo_ext 16 \<and>
   ConvertMapLayerMaskToMapNames demo_ext demo_levels 0 [] = Inr [] \<and>
   ConvertMapLayerMaskToMapNames demo_ext demo_levels (MapLayer_All demo_ext) []
     = Inr [''Town01_Decals'', ''Town01_Foliage'', ''Town01_Buildings'']"
proof -
  have h1: "layer_enum demo_ext 16"
    by (simp add: layer_enum_def demo_ext_def mask_eq_exp_minus_1)
  have h2: "\<forall>Level \<in> set demo_levels. Level \<noteq> []"
    by (simp add: demo_levels_def)
  have h3: "\<forall>Level \<in> set demo_levels. \<exists>i < 16.
       Contains demo_ext (last_component Level) (MapLayerToString demo_ext (2 ^ i))"
    by code_simp
  have e: "map last_component demo_levels = [''Town01_Decals'', ''Town01_Foliage'', ''Town01_Buildings'']"
    by code_simp
  from resolve_none_and_all [OF h1 h2] h1 h3 e show ?thesis
    by (simp only:)
qed

section \<open>The output array is appended to\<close>

lemma load_levels_eq:
  "load_levels ns u s = s\<lparr>calls := calls s @ load_calls ns u\<rparr>"
  by (induction ns arbitrary: u s) (simp_all add: emit_def)

lemma unload_levels_eq:
  "unload_levels ns u s = s\<lparr>calls := calls s @ unload_calls ns u\<rparr>"
  by (induction ns arbitrary: u s) (simp_all add: emit_def)

lemma Convert_append:
  "ConvertMapLayerMaskToMapNames ext Levels M out =
     map_sum id ((@) out) (ConvertMapLayerMaskToMapNames ext Levels M [])"
proof (cases "[] \<in> set Levels")
  case True
  then show ?thesis
    by (simp add: ConvertMapLayerMaskToMapNames_def match_levels_error)
next
  case False
  then have "\<forall>l \<in> set Levels. l \<noteq> []" by auto
  then show ?thesis
    by (simp add: ConvertMapLayerMaskToMapNames_def match_levels_eq)
qed

lemma Convert_resolved:
  "ConvertMapLayerMaskToMapNames ext Levels M out =
     (if [] \<in> set Levels then Inl ArrayIndexOutOfRange
      else Inr (out @ resolved_names ext Levels M))"
proof (cases "[] \<in> set Levels")
  case True
  then show ?thesis
    by (simp add: ConvertMapLayerMaskToMapNames_def match_levels_error)
next
  case False
  then have "\<forall>l \<in> set Levels. l \<noteq> []" by auto
  then show ?thesis
    using False
    by (simp add: ConvertMapLayerMaskToMapNames_def match_levels_eq resolved_names_def)
qed

text \<open>
  C10. \<^verbatim>\<open>ConvertMapLayerMaskToMapNames\<close> appends the resolved names to the array it is
  given and never clears it: its output is the given array followed by the resolved
  sub-level list, so it is the resolved list exactly when the array passed is empty.
  \<^verbatim>\<open>LoadMapLayer\<close> and \<^verbatim>\<open>UnLoadMapLayer\<close> pass an empty array: the count each stores is
  the size of the list resolved for that request, and each issues one operation per
  resolved name. All three stop with the out-of-range error when a streaming level has an
  empty package name.
\<close>

theorem output_array_not_cleared:
  "ConvertMapLayerMaskToMapNames ext Levels MapLayer OutLevelNames =
     (if [] \<in> set Levels then Inl ArrayIndexOutOfRange
      else Inr (OutLevelNames @ resolved_names ext Levels MapLayer)) \<and>
   (ConvertMapLayerMaskToMapNames ext Levels MapLayer OutLevelNames =
      Inr (resolved_names ext Levels MapLayer)) = ([] \<notin> set Levels \<and> OutLevelNames = []) \<and>
   LoadMapLayer ext MapLayer s =
     (if [] \<in> set (StreamingLevels s) then Inl ArrayIndexOutOfRange
      else Inr (s\<lparr>PendingLevelsToLoad :=
                     int (length (resolved_names ext (StreamingLevels s) MapLayer)),
                   calls := calls s @
                     load_calls (resolved_names ext (StreamingLevels s) MapLayer) 1\<rparr>)) \<and>
   UnLoadMapLayer ext MapLayer s =
     (if [] \<in> set (StreamingLevels s) then Inl ArrayIndexOutOfRange
      else Inr (s\<lparr>PendingLevelsToUnLoad :=
                     int (length (resolved_names ext (StreamingLevels s) MapLayer)),
                   calls := calls s @
                     unload_calls (resolved_names ext (StreamingLevels s) MapLayer) 1\<rparr>))"
proof (intro conjI)
  show "ConvertMapLayerMaskToMapNames ext Levels MapLayer OutLevelNames =
     (if [] \<in> set Levels then Inl ArrayIndexOutOfRange
      else Inr (OutLevelNames @ resolved_names ext Levels MapLayer))"
    by (rule Convert_resolved)
next
  show "(ConvertMapLayerMaskToMapNames ext Levels MapLayer OutLevelNames =
      Inr (resolved_names ext Levels MapLayer)) = ([] \<notin> set Levels \<and> OutLevelNames = [])"
    by (simp add: Convert_resolved)
next
  show "LoadMapLayer ext MapLayer s =
     (if [] \<in> set (StreamingLevels s) then Inl ArrayIndexOutOfRange
      else Inr (s\<lparr>PendingLevelsToLoad :=
                     int (length (resolved_names ext (StreamingLevels s) MapLayer)),
                   calls := calls s @
                     load_calls (resolved_names ext (StreamingLevels s) MapLayer) 1\<rparr>))"
    by (simp add: LoadMapLayer_def Convert_resolved load_levels_eq)
next
  show "UnLoadMapLayer ext MapLayer s =
     (if [] \<in> set (StreamingLevels s) then Inl ArrayIndexOutOfRange
      else Inr (s\<lparr>PendingLevelsToUnLoad :=
                     int (length (resolved_names ext (StreamingLevels s) MapLayer)),
                   calls := calls s @
                     unload_calls (resolved_names ext (StreamingLevels s) MapLayer) 1\<rparr>))"
    by (simp add: UnLoadMapLayer_def Convert_resolved unload_levels_eq)
qed

text \<open>
  Decals and Foliage on the instance: an array that holds a name keeps it in front of the
  two resolved names, and each request stores 2 and issues two operations.
\<close>

theorem output_array_not_cleared_witness:
  "ConvertMapLayerMaskToMapNames demo_ext demo_levels 6 [''Kept''] =
     Inr [''Kept'', ''Town01_Decals'', ''Town01_Foliage''] \<and>
   LoadMapLayer demo_ext 6 demo_ready =
     Inr (demo_ready\<lparr>PendingLevelsToLoad := 2,
            calls := [LoadStreamLevel ''Town01_Decals'' 1, LoadStreamLevel ''Town01_Foliage'' 2]\<rparr>) \<and>
   UnLoadMapLayer demo_ext 6 demo_ready =
     Inr (demo_ready\<lparr>PendingLevelsToUnLoad := 2,
            calls := [UnloadStreamLevel ''Town01_Decals'' 1, UnloadStreamLevel ''Town01_Foliage'' 2]\<rparr>)"
proof -
  have l: "[] \<notin> set demo_levels" "StreamingLevels demo_ready = demo_levels"
    "calls demo_ready = []"
    by (simp_all add: demo_levels_def demo_ready_def demo_state_def)
  have r: "resolved_names demo_ext demo_levels 6 = [''Town01_Decals'', ''Town01_Foliage'']"
    by code_simp
  from output_array_not_cleared [of demo_ext demo_levels 6 "[''Kept'']" demo_ready]
  show ?thesis
    by (simp add: l r)
qed

section \<open>The callbacks and the requests, field by field\<close>

lemma OnLoadStreamLevel_eq:
  "OnLoadStreamLevel s =
     s\<lparr>PendingLevelsToLoad := PendingLevelsToLoad s - 1,
       calls := calls s @ (if ReadyToRegisterObjects s \<and> PendingLevelsToLoad s = 1
                           then [RegisterObjects, TagActorsInLevel] else [])\<rparr>"
  by (simp add: OnLoadStreamLevel_def RegisterEnvironmentObjects_def emit_def Let_def)

lemma OnUnloadStreamLevel_eq:
  "OnUnloadStreamLevel s =
     s\<lparr>PendingLevelsToUnLoad := PendingLevelsToUnLoad s - 1,
       calls := calls s @ (if ReadyToRegisterObjects s \<and> PendingLevelsToUnLoad s = 1
                           then [RegisterObjects] else [])\<rparr>"
  by (simp add: OnUnloadStreamLevel_def RegisterEnvironmentObjects_def emit_def Let_def)

lemma LoadMapLayer_eq:
  "LoadMapLayer ext m s =
     map_sum id (\<lambda>names. s\<lparr>PendingLevelsToLoad := int (length names),
                              calls := calls s @ load_calls names 1\<rparr>)
       (ConvertMapLayerMaskToMapNames ext (StreamingLevels s) m [])"
  by (simp add: LoadMapLayer_def load_levels_eq split: sum.split)

lemma UnLoadMapLayer_eq:
  "UnLoadMapLayer ext m s =
     map_sum id (\<lambda>names. s\<lparr>PendingLevelsToUnLoad := int (length names),
                              calls := calls s @ unload_calls names 1\<rparr>)
       (ConvertMapLayerMaskToMapNames ext (StreamingLevels s) m [])"
  by (simp add: UnLoadMapLayer_def unload_levels_eq split: sum.split)

lemma Tag_notin_load_calls: "count_list (load_calls ns u) TagActorsInLevel = 0"
  by (induction ns arbitrary: u) simp_all

lemma Tag_notin_unload_calls: "count_list (unload_calls ns u) TagActorsInLevel = 0"
  by (induction ns arbitrary: u) simp_all

lemma count_list_app: "count_list (xs @ ys) x = count_list xs x + count_list ys x"
  by (induction xs) simp_all

lemma step_ok:
  assumes "[] \<notin> set (StreamingLevels s)"
  shows "\<exists>s1. step ext e s = Inr s1 \<and>
      StreamingLevels s1 = StreamingLevels s \<and>
      ReadyToRegisterObjects s1 = ReadyToRegisterObjects s \<and>
      PendingLevelsToLoad s1 = PendingLevelsToLoad s - (if e = LoadCompleted then 1 else 0) \<and>
      count_list (calls s1) TagActorsInLevel = count_list (calls s) TagActorsInLevel +
        (if e = LoadCompleted \<and> ReadyToRegisterObjects s \<and> PendingLevelsToLoad s = 1 then 1 else 0)"
proof (cases e)
  case LoadCompleted
  then show ?thesis
    by (simp add: OnLoadStreamLevel_eq count_list_app)
next
  case UnloadCompleted
  then show ?thesis
    by (simp add: OnUnloadStreamLevel_eq count_list_app)
next
  case (UnloadRequested m)
  from assms obtain names where
    "ConvertMapLayerMaskToMapNames ext (StreamingLevels s) m [] = Inr names"
    using Convert_ok_iff [of ext "StreamingLevels s" m "[]"] by auto
  with UnloadRequested show ?thesis
    by (simp add: UnLoadMapLayer_eq count_list_app Tag_notin_unload_calls)
qed

lemma run_ok:
  assumes "[] \<notin> set (StreamingLevels s)" and "ReadyToRegisterObjects s"
  shows "\<exists>s'. run ext es s = Inr s' \<and>
      ReadyToRegisterObjects s' \<and>
      PendingLevelsToLoad s' = PendingLevelsToLoad s - int (count_list es LoadCompleted) \<and>
      count_list (calls s') TagActorsInLevel = count_list (calls s) TagActorsInLevel +
        (if 0 < PendingLevelsToLoad s \<and> PendingLevelsToLoad s \<le> int (count_list es LoadCompleted)
         then 1 else 0)"
  using assms
proof (induction es arbitrary: s)
  case Nil
  then show ?case by simp
next
  case (Cons e es)
  from step_ok [OF Cons.prems(1), of ext e] obtain s1 where s1:
    "step ext e s = Inr s1"
    "StreamingLevels s1 = StreamingLevels s"
    "ReadyToRegisterObjects s1 = ReadyToRegisterObjects s"
    "PendingLevelsToLoad s1 = PendingLevelsToLoad s - (if e = LoadCompleted then 1 else 0)"
    "count_list (calls s1) TagActorsInLevel = count_list (calls s) TagActorsInLevel +
        (if e = LoadCompleted \<and> ReadyToRegisterObjects s \<and> PendingLevelsToLoad s = 1 then 1 else 0)"
    by blast
  from Cons.prems s1 have "[] \<notin> set (StreamingLevels s1)" and "ReadyToRegisterObjects s1"
    by simp_all
  from Cons.IH [OF this] obtain s' where s':
    "run ext es s1 = Inr s'"
    "ReadyToRegisterObjects s'"
    "PendingLevelsToLoad s' = PendingLevelsToLoad s1 - int (count_list es LoadCompleted)"
    "count_list (calls s') TagActorsInLevel = count_list (calls s1) TagActorsInLevel +
        (if 0 < PendingLevelsToLoad s1 \<and> PendingLevelsToLoad s1 \<le> int (count_list es LoadCompleted)
         then 1 else 0)"
    by blast
  have "run ext (e # es) s = Inr s'"
    using s1(1) s'(1) by simp
  moreover have "PendingLevelsToLoad s' =
      PendingLevelsToLoad s - int (count_list (e # es) LoadCompleted)"
    using s1(4) s'(3) by simp
  moreover have "count_list (calls s') TagActorsInLevel = count_list (calls s) TagActorsInLevel +
        (if 0 < PendingLevelsToLoad s \<and> PendingLevelsToLoad s \<le> int (count_list (e # es) LoadCompleted)
         then 1 else 0)"
    using s1(4,5) s'(4) Cons.prems(2) by (cases "e = LoadCompleted") auto
  ultimately show ?case
    using s'(2) by blast
qed

lemma filter_load_calls:
  "filter (\<lambda>c. c = RegisterObjects \<or> c = TagActorsInLevel) (load_calls ns u) = []"
  by (induction ns arbitrary: u) simp_all

lemma emit_fields [simp]:
  "StreamingLevels (emit c s) = StreamingLevels s"
  "CurrentMapLayer (emit c s) = CurrentMapLayer s"
  "HasWeather (emit c s) = HasWeather s"
  "HasRecorder (emit c s) = HasRecorder s"
  "PendingLevelsToLoad (emit c s) = PendingLevelsToLoad s"
  "PendingLevelsToUnLoad (emit c s) = PendingLevelsToUnLoad s"
  "ReadyToRegisterObjects (emit c s) = ReadyToRegisterObjects s"
  "calls (emit c s) = calls s @ [c]"
  by (simp_all add: emit_def)

lemma BeginPlay_ok:
  assumes "ConvertMapLayerMaskToMapNames ext (StreamingLevels s0) (CurrentMapLayer s0) [] = Inr names"
  shows "\<exists>s. BeginPlay ext s0 = Inr s \<and>
      ReadyToRegisterObjects s \<and>
      StreamingLevels s = StreamingLevels s0 \<and>
      PendingLevelsToLoad s = int (length names) \<and>
      PendingLevelsToUnLoad s = PendingLevelsToUnLoad s0 \<and>
      filter (\<lambda>c. c = RegisterObjects \<or> c = TagActorsInLevel) (calls s) =
        filter (\<lambda>c. c = RegisterObjects \<or> c = TagActorsInLevel) (calls s0) @
        TagActorsInLevel # (if names = [] then [RegisterObjects] else [])"
proof -
  define s1 where "s1 = (emit (HostCall ''Super::BeginPlay'') s0)\<lparr>PendingLevelsToLoad := int (length names),
       calls := calls (emit (HostCall ''Super::BeginPlay'') s0) @ load_calls names 1\<rparr>"
  have l: "LoadMapLayer ext (CurrentMapLayer s0) (emit (HostCall ''Super::BeginPlay'') s0) = Inr s1"
    using assms by (simp add: LoadMapLayer_eq s1_def)
  have f: "StreamingLevels s1 = StreamingLevels s0" "PendingLevelsToLoad s1 = int (length names)"
    "PendingLevelsToUnLoad s1 = PendingLevelsToUnLoad s0"
    "filter (\<lambda>c. c = RegisterObjects \<or> c = TagActorsInLevel) (calls s1) =
        filter (\<lambda>c. c = RegisterObjects \<or> c = TagActorsInLevel) (calls s0)"
    by (simp_all add: s1_def filter_load_calls)
  show ?thesis
    unfolding BeginPlay_def l sum.case Let_def RegisterEnvironmentObjects_def
    by (cases "HasWeather s1"; cases "HasRecorder s1"; cases "names = []") (simp_all add: f)
qed

section \<open>One registration per load batch\<close>

text \<open>
  C1 as stated: every load batch that resolves to \<open>N \<ge> 1\<close> sub-levels gets its own
  register-and-tag pass, on its own last completion. A load request assigns the counter, so
  a request made while a batch is in flight takes the batch over. A request for two levels
  followed by a request for one leaves the counter at 1: the first of the three completions
  registers and tags, with two levels still to come, and the two batches have one pass
  between them. And when \<^verbatim>\<open>BeginPlay\<close> raises the flag during a batch made before it, its
  own request sets the counter to 2, and the last completion of that batch registers nothing.
\<close>

theorem overlapping_load_requests_counterexample:
  "LoadMapLayer demo_ext 6 demo_ready = Inr demo_loading \<and>
   LoadMapLayer demo_ext 1 demo_loading = Inr demo_overlap \<and>
   PendingLevelsToLoad demo_overlap = 1 \<and>
   OnLoadStreamLevel demo_overlap =
     demo_overlap\<lparr>PendingLevelsToLoad := 0,
       calls := [LoadStreamLevel ''Town01_Decals'' 1, LoadStreamLevel ''Town01_Foliage'' 2,
                 LoadStreamLevel ''Town01_Buildings'' 1, RegisterObjects, TagActorsInLevel]\<rparr> \<and>
   OnLoadStreamLevel (OnLoadStreamLevel (OnLoadStreamLevel demo_overlap)) =
     demo_overlap\<lparr>PendingLevelsToLoad := - 2,
       calls := [LoadStreamLevel ''Town01_Decals'' 1, LoadStreamLevel ''Town01_Foliage'' 2,
                 LoadStreamLevel ''Town01_Buildings'' 1, RegisterObjects, TagActorsInLevel]\<rparr> \<and>
   LoadMapLayer demo_ext 6 demo_state = Inr (demo_loading\<lparr>ReadyToRegisterObjects := False\<rparr>) \<and>
   PendingLevelsToLoad
     (OnLoadStreamLevel (demo_loading\<lparr>ReadyToRegisterObjects := False\<rparr>)) = 1 \<and>
   map_sum id ReadyToRegisterObjects
     (BeginPlay demo_ext (OnLoadStreamLevel (demo_loading\<lparr>ReadyToRegisterObjects := False\<rparr>)))
     = Inr True \<and>
   map_sum id PendingLevelsToLoad
     (BeginPlay demo_ext (OnLoadStreamLevel (demo_loading\<lparr>ReadyToRegisterObjects := False\<rparr>)))
     = Inr 2 \<and>
   map_sum id (PendingLevelsToLoad \<circ> OnLoadStreamLevel)
     (BeginPlay demo_ext (OnLoadStreamLevel (demo_loading\<lparr>ReadyToRegisterObjects := False\<rparr>)))
     = Inr 1 \<and>
   map_sum id (calls \<circ> OnLoadStreamLevel)
     (BeginPlay demo_ext (OnLoadStreamLevel (demo_loading\<lparr>ReadyToRegisterObjects := False\<rparr>)))
   = map_sum id calls
     (BeginPlay demo_ext (OnLoadStreamLevel (demo_loading\<lparr>ReadyToRegisterObjects := False\<rparr>)))"
  by code_simp

text \<open>
  C1, amended. For every load batch during which no further load request is made (neither
  \<^verbatim>\<open>LoadMapLayer\<close> nor \<^verbatim>\<open>BeginPlay\<close>): when the request, made by \<^verbatim>\<open>LoadMapLayer\<close> with the
  ready flag set or by \<^verbatim>\<open>BeginPlay\<close>, which sets the flag right after its own request,
  resolves to \<open>N \<ge> 1\<close> sub-levels, then whatever load completions, unload completions and
  unload requests follow, in any order, the load completion that comes next calls
  \<^verbatim>\<open>RegisterEnvironmentObjects\<close> and then the tagging exactly when it is the \<open>N\<close>-th one,
  the one that takes the counter from 1 to 0, and calls nothing otherwise; so nothing is
  registered while the counter is positive, and the tagging calls of the batch number one
  once \<open>N\<close> completions have arrived and none before.
\<close>

theorem load_batch_registers_once:
  assumes "(LoadMapLayer ext MapLayers s0 = Inr s \<and> ReadyToRegisterObjects s0) \<or>
           (BeginPlay ext s0 = Inr s \<and> MapLayers = CurrentMapLayer s0)"
    and "ConvertMapLayerMaskToMapNames ext (StreamingLevels s0) MapLayers [] = Inr LevelsToLoad"
    and "LevelsToLoad \<noteq> []"
  shows "\<exists>s'. run ext es s = Inr s' \<and>
      PendingLevelsToLoad s' = int (length LevelsToLoad) - int (count_list es LoadCompleted) \<and>
      calls (OnLoadStreamLevel s') = calls s' @
        (if Suc (count_list es LoadCompleted) = length LevelsToLoad
         then [RegisterObjects, TagActorsInLevel] else []) \<and>
      count_list (calls s') TagActorsInLevel = count_list (calls s) TagActorsInLevel +
        (if length LevelsToLoad \<le> count_list es LoadCompleted then 1 else 0)"
proof -
  from assms(2) have lv: "[] \<notin> set (StreamingLevels s0)"
    using Convert_ok_iff [of ext "StreamingLevels s0" MapLayers "[]"] by auto
  have s: "StreamingLevels s = StreamingLevels s0 \<and> ReadyToRegisterObjects s \<and>
      PendingLevelsToLoad s = int (length LevelsToLoad)"
    using assms(1)
  proof
    assume "LoadMapLayer ext MapLayers s0 = Inr s \<and> ReadyToRegisterObjects s0"
    with assms(2) show ?thesis
      by (auto simp: LoadMapLayer_eq)
  next
    assume b: "BeginPlay ext s0 = Inr s \<and> MapLayers = CurrentMapLayer s0"
    with assms(2) BeginPlay_ok [of ext s0 LevelsToLoad] show ?thesis
      by auto
  qed
  with lv have "[] \<notin> set (StreamingLevels s)" and "ReadyToRegisterObjects s"
    by simp_all
  from run_ok [OF this, of ext es] obtain s' where s':
    "run ext es s = Inr s'"
    "ReadyToRegisterObjects s'"
    "PendingLevelsToLoad s' = PendingLevelsToLoad s - int (count_list es LoadCompleted)"
    "count_list (calls s') TagActorsInLevel = count_list (calls s) TagActorsInLevel +
        (if 0 < PendingLevelsToLoad s \<and> PendingLevelsToLoad s \<le> int (count_list es LoadCompleted)
         then 1 else 0)"
    by blast
  from assms(3) have pos: "0 < length LevelsToLoad" by simp
  have "PendingLevelsToLoad s' = int (length LevelsToLoad) - int (count_list es LoadCompleted)"
    using s s'(3) by simp
  moreover have "calls (OnLoadStreamLevel s') = calls s' @
        (if Suc (count_list es LoadCompleted) = length LevelsToLoad
         then [RegisterObjects, TagActorsInLevel] else [])"
    using s s'(2,3) by (auto simp: OnLoadStreamLevel_eq)
  moreover have "count_list (calls s') TagActorsInLevel = count_list (calls s) TagActorsInLevel +
        (if length LevelsToLoad \<le> count_list es LoadCompleted then 1 else 0)"
    using s s'(4) pos by auto
  ultimately show ?thesis
    using s'(1) by blast
qed

lemma demo_Convert:
  "ConvertMapLayerMaskToMapNames demo_ext (StreamingLevels demo_ready) 6 []
     = Inr [''Town01_Decals'', ''Town01_Foliage'']"
  by code_simp

lemma demo_LoadMapLayer: "LoadMapLayer demo_ext 6 demo_ready = Inr demo_loading"
  by code_simp

text \<open>A batch of two levels with one load completion, an unload request and an unload
  completion behind it: the next load completion registers and tags.\<close>

theorem load_batch_registers_once_witness:
  "\<exists>s'. run demo_ext [LoadCompleted, UnloadRequested 1, UnloadCompleted] demo_loading = Inr s' \<and>
      PendingLevelsToLoad s' = 1 \<and>
      calls (OnLoadStreamLevel s') = calls s' @ [RegisterObjects, TagActorsInLevel] \<and>
      count_list (calls s') TagActorsInLevel = 0"
proof -
  have r: "ReadyToRegisterObjects demo_ready"
    by (simp add: demo_ready_def)
  have h1: "(LoadMapLayer demo_ext 6 demo_ready = Inr demo_loading \<and> ReadyToRegisterObjects demo_ready) \<or>
           (BeginPlay demo_ext demo_ready = Inr demo_loading \<and> 6 = CurrentMapLayer demo_ready)"
    using demo_LoadMapLayer r by simp
  have h3: "[''Town01_Decals'', ''Town01_Foliage''] \<noteq> []"
    by simp
  have c: "calls demo_loading = [LoadStreamLevel ''Town01_Decals'' 1, LoadStreamLevel ''Town01_Foliage'' 2]"
    by (simp add: demo_loading_def)
  from load_batch_registers_once [OF h1 demo_Convert h3,
      of "[LoadCompleted, UnloadRequested 1, UnloadCompleted]"]
  show ?thesis
    by (simp add: c)
qed


section \<open>Completions beyond the counted ones\<close>

text \<open>
  C2 as stated: the counters are never negative, each completion decrements with a floor
  at 0. The code decrements without a floor: from 0 a completion gives \<open>- 1\<close>.
\<close>

theorem spurious_completion_counterexample:
  "PendingLevelsToLoad demo_ready = 0 \<and>
   PendingLevelsToLoad (OnLoadStreamLevel demo_ready) = - 1 \<and>
   PendingLevelsToUnLoad demo_ready = 0 \<and>
   PendingLevelsToUnLoad (OnUnloadStreamLevel demo_ready) = - 1"
  by (simp add: demo_ready_def demo_state_def OnLoadStreamLevel_def OnUnloadStreamLevel_def)

text \<open>
  C2, amended. Each completion callback decrements its counter by exactly one, with no
  floor: a spurious completion that arrives when the counter is 0 or below drives it
  negative, and it triggers no registration pass.
\<close>

theorem completion_decrements_without_floor:
  "PendingLevelsToLoad (OnLoadStreamLevel s) = PendingLevelsToLoad s - 1 \<and>
   PendingLevelsToUnLoad (OnUnloadStreamLevel s) = PendingLevelsToUnLoad s - 1 \<and>
   (PendingLevelsToLoad s \<le> 0 \<longrightarrow>
      PendingLevelsToLoad (OnLoadStreamLevel s) < 0 \<and> calls (OnLoadStreamLevel s) = calls s) \<and>
   (PendingLevelsToUnLoad s \<le> 0 \<longrightarrow>
      PendingLevelsToUnLoad (OnUnloadStreamLevel s) < 0 \<and> calls (OnUnloadStreamLevel s) = calls s)"
  by (simp add: OnLoadStreamLevel_eq OnUnloadStreamLevel_eq)

theorem completion_decrements_without_floor_witness:
  "PendingLevelsToLoad (OnLoadStreamLevel (OnLoadStreamLevel demo_ready)) = - 2 \<and>
   calls (OnLoadStreamLevel (OnLoadStreamLevel demo_ready)) = [] \<and>
   PendingLevelsToUnLoad (OnUnloadStreamLevel (OnUnloadStreamLevel demo_ready)) = - 2 \<and>
   calls (OnUnloadStreamLevel (OnUnloadStreamLevel demo_ready)) = []"
proof -
  have a: "PendingLevelsToLoad demo_ready = 0" "PendingLevelsToUnLoad demo_ready = 0"
    "calls demo_ready = []"
    by (simp_all add: demo_ready_def demo_state_def)
  from completion_decrements_without_floor [of demo_ready] a
  have b: "PendingLevelsToLoad (OnLoadStreamLevel demo_ready) = - 1"
    "calls (OnLoadStreamLevel demo_ready) = []"
    "PendingLevelsToUnLoad (OnUnloadStreamLevel demo_ready) = - 1"
    "calls (OnUnloadStreamLevel demo_ready) = []"
    by simp_all
  from completion_decrements_without_floor [of "OnLoadStreamLevel demo_ready"]
    completion_decrements_without_floor [of "OnUnloadStreamLevel demo_ready"] b
  show ?thesis
    by simp
qed

section \<open>BeginPlay\<close>

text \<open>
  C3 as stated: the readiness signal sets the flag and, if the pending-load counter is 0
  at that moment, performs a register-and-tag pass at once. \<^verbatim>\<open>BeginPlay\<close> issues its own
  load request before it sets the flag: from a counter of 0 and a current mask that
  resolves to two levels it registers nothing; and when the mask resolves to no level, the
  registration comes after the tagging, which is made whatever the counter is.
\<close>

theorem BeginPlay_counterexample:
  "PendingLevelsToLoad demo_state = 0 \<and>
   BeginPlay demo_ext demo_state = Inr
     \<lparr>StreamingLevels = demo_levels, CurrentMapLayer = 6, HasWeather = True, HasRecorder = True,
      PendingLevelsToLoad = 2, PendingLevelsToUnLoad = 0, ReadyToRegisterObjects = True,
      calls = [HostCall ''Super::BeginPlay'',
               LoadStreamLevel ''Town01_Decals'' 1, LoadStreamLevel ''Town01_Foliage'' 2,
               TagActorsInLevel,
               HostCall ''TaggerDelegate->SetSemanticSegmentationEnabled'',
               HostCall ''SpawnActor<ADecalActor>'',
               HostCall ''GetTrafficLightManager'',
               HostCall ''Manager->InitializeTrafficLights'',
               HostCall ''Episode->InitializeAtBeginPlay'',
               HostCall ''GameInstance->NotifyBeginEpisode'',
               HostCall ''Weather->ApplyWeather'',
               HostCall ''Replayer->CheckPlayAfterMapLoaded'']\<rparr> \<and>
   BeginPlay demo_ext (demo_state\<lparr>CurrentMapLayer := 0\<rparr>) = Inr
     \<lparr>StreamingLevels = demo_levels, CurrentMapLayer = 0, HasWeather = True, HasRecorder = True,
      PendingLevelsToLoad = 0, PendingLevelsToUnLoad = 0, ReadyToRegisterObjects = True,
      calls = [HostCall ''Super::BeginPlay'',
               TagActorsInLevel,
               HostCall ''TaggerDelegate->SetSemanticSegmentationEnabled'',
               HostCall ''SpawnActor<ADecalActor>'',
               HostCall ''GetTrafficLightManager'',
               HostCall ''Manager->InitializeTrafficLights'',
               HostCall ''Episode->InitializeAtBeginPlay'',
               HostCall ''GameInstance->NotifyBeginEpisode'',
               HostCall ''Weather->ApplyWeather'',
               HostCall ''Replayer->CheckPlayAfterMapLoaded'',
               RegisterObjects]\<rparr>"
  by code_simp

text \<open>
  C3, amended. \<^verbatim>\<open>BeginPlay\<close> first requests the load of the current layer mask, which
  overwrites the pending-load counter with the number \<open>N\<close> of resolved sub-levels, then sets
  the ready flag and tags the world; it calls \<^verbatim>\<open>RegisterEnvironmentObjects\<close>, once and
  after the tagging, exactly when \<open>N = 0\<close>. When \<open>N \<ge> 1\<close> it registers nothing: that is left
  to the load completion that takes the counter to 0. It returns whenever no streaming
  level has an empty package name.
\<close>

theorem BeginPlay_sets_ready:
  assumes "[] \<notin> set (StreamingLevels s0)"
  shows "\<exists>s LevelsToLoad.
      BeginPlay ext s0 = Inr s \<and>
      ConvertMapLayerMaskToMapNames ext (StreamingLevels s0) (CurrentMapLayer s0) [] = Inr LevelsToLoad \<and>
      ReadyToRegisterObjects s \<and>
      PendingLevelsToLoad s = int (length LevelsToLoad) \<and>
      filter (\<lambda>c. c = RegisterObjects \<or> c = TagActorsInLevel) (calls s) =
        filter (\<lambda>c. c = RegisterObjects \<or> c = TagActorsInLevel) (calls s0) @
        TagActorsInLevel # (if LevelsToLoad = [] then [RegisterObjects] else [])"
proof -
  from assms obtain names where
    n: "ConvertMapLayerMaskToMapNames ext (StreamingLevels s0) (CurrentMapLayer s0) [] = Inr names"
    using Convert_ok_iff [of ext "StreamingLevels s0" "CurrentMapLayer s0" "[]"] by auto
  from BeginPlay_ok [OF n] n show ?thesis
    by blast
qed

theorem BeginPlay_sets_ready_witness:
  "\<exists>s. BeginPlay demo_ext (demo_state\<lparr>CurrentMapLayer := 0\<rparr>) = Inr s \<and>
      ReadyToRegisterObjects s \<and> PendingLevelsToLoad s = 0 \<and>
      filter (\<lambda>c. c = RegisterObjects \<or> c = TagActorsInLevel) (calls s) =
        [TagActorsInLevel, RegisterObjects]"
proof -
  let ?s0 = "demo_state\<lparr>CurrentMapLayer := 0\<rparr>"
  have h: "[] \<notin> set (StreamingLevels ?s0)"
    by (simp add: demo_state_def demo_levels_def)
  have c: "ConvertMapLayerMaskToMapNames demo_ext (StreamingLevels ?s0) (CurrentMapLayer ?s0) [] = Inr []"
    by code_simp
  have e: "calls ?s0 = []"
    by (simp add: demo_state_def)
  from BeginPlay_sets_ready [OF h, of demo_ext] c e show ?thesis
    by auto
qed

section \<open>The last unload completion\<close>

text \<open>
  C4. When an unload completion takes the pending-unload counter to 0 and the ready flag is
  set, \<^verbatim>\<open>RegisterEnvironmentObjects\<close> is called and nothing else is: no tagging call is
  made on the unload path.
\<close>

theorem last_unload_registers_only:
  assumes "ReadyToRegisterObjects s" and "PendingLevelsToUnLoad s = 1"
  shows "PendingLevelsToUnLoad (OnUnloadStreamLevel s) = 0 \<and>
     calls (OnUnloadStreamLevel s) = calls s @ [RegisterObjects]"
  using assms by (simp add: OnUnloadStreamLevel_eq)

theorem last_unload_registers_only_witness:
  "PendingLevelsToUnLoad
     (OnUnloadStreamLevel (demo_ready\<lparr>PendingLevelsToUnLoad := 1\<rparr>)) = 0 \<and>
   calls (OnUnloadStreamLevel (demo_ready\<lparr>PendingLevelsToUnLoad := 1\<rparr>)) = [RegisterObjects]"
proof -
  let ?s = "demo_ready\<lparr>PendingLevelsToUnLoad := 1\<rparr>"
  have h1: "ReadyToRegisterObjects ?s" and h2: "PendingLevelsToUnLoad ?s = 1"
    and c: "calls ?s = []"
    by (simp_all add: demo_ready_def demo_state_def)
  from last_unload_registers_only [OF h1 h2] c show ?thesis
    by simp
qed

section \<open>A load request that resolves to nothing\<close>

text \<open>
  C8 as stated: such a request leaves the pending-load counter unchanged. The code stores
  the number of resolved levels whatever it is: a counter of 2 becomes 0.
\<close>

theorem empty_load_request_counterexample:
  "ConvertMapLayerMaskToMapNames demo_ext (StreamingLevels demo_loading) 0 [] = Inr [] \<and>
   PendingLevelsToLoad demo_loading = 2 \<and>
   map_sum id PendingLevelsToLoad (LoadMapLayer demo_ext 0 demo_loading) = Inr 0"
  by code_simp

text \<open>
  C8, amended. For every mask whose resolution yields an empty sub-level list,
  \<^verbatim>\<open>LoadMapLayer\<close> issues no streaming operation and changes nothing but the pending-load
  counter, which it sets to 0.
\<close>

theorem empty_load_request:
  assumes "ConvertMapLayerMaskToMapNames ext (StreamingLevels s) MapLayers [] = Inr []"
  shows "LoadMapLayer ext MapLayers s = Inr (s\<lparr>PendingLevelsToLoad := 0\<rparr>)"
  using assms by (simp add: LoadMapLayer_def)

theorem empty_load_request_witness:
  "LoadMapLayer demo_ext 0 demo_loading = Inr (demo_loading\<lparr>PendingLevelsToLoad := 0\<rparr>)"
proof -
  have h: "ConvertMapLayerMaskToMapNames demo_ext (StreamingLevels demo_loading) 0 [] = Inr []"
    by code_simp
  from empty_load_request [OF h] show ?thesis .
qed

section \<open>Loads and unloads do not touch each other\<close>

text \<open>
  C9. A load completion changes the pending-load counter and nothing else but the trace,
  an unload completion the pending-unload counter and nothing else but the trace, a load
  request writes the load counter only and an unload request the unload counter only; what
  a completion registers depends on the ready flag and on its own counter alone.
\<close>

theorem opposite_directions_independent:
  "OnLoadStreamLevel s =
     s\<lparr>PendingLevelsToLoad := PendingLevelsToLoad s - 1,
       calls := calls s @ (if ReadyToRegisterObjects s \<and> PendingLevelsToLoad s = 1
                           then [RegisterObjects, TagActorsInLevel] else [])\<rparr> \<and>
   OnUnloadStreamLevel s =
     s\<lparr>PendingLevelsToUnLoad := PendingLevelsToUnLoad s - 1,
       calls := calls s @ (if ReadyToRegisterObjects s \<and> PendingLevelsToUnLoad s = 1
                           then [RegisterObjects] else [])\<rparr> \<and>
   LoadMapLayer ext MapLayers s =
     map_sum id (\<lambda>LevelsToLoad. s\<lparr>PendingLevelsToLoad := int (length LevelsToLoad),
                              calls := calls s @ load_calls LevelsToLoad 1\<rparr>)
       (ConvertMapLayerMaskToMapNames ext (StreamingLevels s) MapLayers []) \<and>
   UnLoadMapLayer ext MapLayers s =
     map_sum id (\<lambda>LevelsToUnLoad. s\<lparr>PendingLevelsToUnLoad := int (length LevelsToUnLoad),
                              calls := calls s @ unload_calls LevelsToUnLoad 1\<rparr>)
       (ConvertMapLayerMaskToMapNames ext (StreamingLevels s) MapLayers [])"
  using OnLoadStreamLevel_eq OnUnloadStreamLevel_eq LoadMapLayer_eq UnLoadMapLayer_eq
  by blast

end
